theory Spec2Isabelle
  imports Main "HOL-Library.Word" "HOL-Library.Multiset"
begin

unbundle bit_operations_syntax

section \<open>Errors\<close>

text \<open>
  The exceptions that the methods of \<^verbatim>\<open>fs/zipfs.py\<close> raise or let through, as values.
  \<open>KeyError\<close> is the lookup failure of the standard library's \<^verbatim>\<open>zipfile\<close>,
  \<open>ValueError\<close> the failure of \<^verbatim>\<open>datetime(...)\<close> on fields that are no date, and
  \<open>WriteFailed\<close> stands for whatever \<^verbatim>\<open>fs.compress.write_zip\<close> raises.
\<close>

datatype error =
    FilesystemClosed
  | ResourceReadOnly string
  | ResourceNotFound string
  | FileExpected string
  | KeyError string
  | ValueError
  | WriteFailed string

section \<open>WriteZipFS\<close>

text \<open>
  The \<^verbatim>\<open>file\<close> argument is an OS file name or an open file object.
\<close>

datatype target = FileName string | FileHandle nat

text \<open>
  The scratch filesystem \<^verbatim>\<open>_temp_fs\<close>: its content, of a type the backend never looks
  into, and whether it has been closed.
\<close>

record 'fs scratch =
  tree :: 'fs
  released :: bool

text \<open>
  The instance attributes of \<^verbatim>\<open>WriteZipFS\<close>. \<open>w_closed\<close> is the \<^verbatim>\<open>_closed\<close> flag of
  the base class. \<open>w_calls\<close> records the effect on the outside world: every call of
  \<^verbatim>\<open>fs.compress.write_zip\<close>, with the destination it was given and its outcome.
\<close>

record ('fs, 'z) WriteZipFS =
  w_file :: target
  w_compression :: int
  w_encoding :: string
  w_temp_fs :: "'fs scratch"
  w_closed :: bool
  w_calls :: "(target \<times> (error + 'z)) list"

text \<open>
  \<^verbatim>\<open>fs.compress.write_zip(src_fs, file, compression, encoding)\<close> is not part of the
  sources at hand; it is a parameter of the model: it reads the scratch filesystem
  and either raises or produces an archive.
\<close>

type_synonym ('fs, 'z) serializer =
  "'fs scratch \<Rightarrow> target \<Rightarrow> int \<Rightarrow> string \<Rightarrow> error + 'z"

text \<open>Python's \<^verbatim>\<open>x or default\<close> on the three optional arguments of \<^verbatim>\<open>write_zip\<close>.\<close>

fun or_file :: "target option \<Rightarrow> target \<Rightarrow> target" where
  "or_file None d = d"
| "or_file (Some (FileName [])) d = d"
| "or_file (Some t) d = t"

fun or_int :: "int option \<Rightarrow> int \<Rightarrow> int" where
  "or_int None d = d"
| "or_int (Some n) d = (if n = 0 then d else n)"

fun or_text :: "string option \<Rightarrow> string \<Rightarrow> string" where
  "or_text None d = d"
| "or_text (Some t) d = (if t = [] then d else t)"

text \<open>
  \<^verbatim>\<open>isclosed\<close> of the base class, which is not part of the sources at hand.
  Modelled from the spec: a backend is closed once it has been marked closed.
\<close>

definition isclosed :: "('fs, 'z) WriteZipFS \<Rightarrow> bool" where
  "isclosed s = w_closed s"

text \<open>
  \<^verbatim>\<open>WriteZipFS.write_zip\<close>: the body is guarded by \<^verbatim>\<open>if not self.isclosed()\<close>; on a
  closed instance the method falls through and returns \<^verbatim>\<open>None\<close>.
\<close>

definition write_zip ::
  "('fs, 'z) serializer \<Rightarrow> ('fs, 'z) WriteZipFS \<Rightarrow> target option \<Rightarrow> int option \<Rightarrow>
     string option \<Rightarrow> error option \<times> ('fs, 'z) WriteZipFS" where
  "write_zip ser s file compression encoding =
     (if \<not> isclosed s then
        (let dest = or_file file (w_file s);
             r = ser (w_temp_fs s) dest (or_int compression (w_compression s))
                   (or_text encoding (w_encoding s));
             s' = s\<lparr>w_calls := w_calls s @ [(dest, r)]\<rparr>
         in (case r of Inl e \<Rightarrow> (Some e, s') | Inr z \<Rightarrow> (None, s')))
      else (None, s))"

text \<open>
  \<^verbatim>\<open>WriteZipFS.close\<close>: \<^verbatim>\<open>try: self.write_zip() finally: self._temp_fs.close()\<close>
  under the guard, then the base class's \<^verbatim>\<open>close\<close>, which marks the instance closed.
  An exception of \<^verbatim>\<open>write_zip\<close> leaves the method after the \<^verbatim>\<open>finally\<close> clause, so
  the base class's \<^verbatim>\<open>close\<close> is not reached.
\<close>

definition WriteZipFS_close ::
  "('fs, 'z) serializer \<Rightarrow> ('fs, 'z) WriteZipFS \<Rightarrow> error option \<times> ('fs, 'z) WriteZipFS" where
  "WriteZipFS_close ser s =
     (if \<not> isclosed s then
        (case write_zip ser s None None None of
           (r, s1) \<Rightarrow>
             (let s2 = s1\<lparr>w_temp_fs := (w_temp_fs s1)\<lparr>released := True\<rparr>\<rparr>
              in (case r of
                    Some e \<Rightarrow> (Some e, s2)
                  | None \<Rightarrow> (None, s2\<lparr>w_closed := True\<rparr>))))
      else (None, s\<lparr>w_closed := True\<rparr>))"

text \<open>Two serializers and a fresh instance, for the concrete runs below.\<close>

definition zip_ok :: "(string list, string list) serializer" where
  "zip_ok src dest compression encoding =
     (if released src then Inl FilesystemClosed else Inr (tree src))"

definition zip_fails :: "(string list, string list) serializer" where
  "zip_fails src dest compression encoding = Inl (WriteFailed ''disk full'')"

definition new_WriteZipFS :: "(string list, string list) WriteZipFS" where
  "new_WriteZipFS =
     \<lparr>w_file = FileName ''foo.zip'', w_compression = 8, w_encoding = ''utf-8'',
      w_temp_fs = \<lparr>tree = [''readme.txt''], released = False\<rparr>,
      w_closed = False, w_calls = []\<rparr>"

section \<open>Paths and archive names\<close>

text \<open>
  The path utilities of \<^verbatim>\<open>fs.path\<close> are not part of the sources at hand.
  Modelled from the spec: a path is a string with \<open>/\<close> as its separator, the root
  is \<open>/\<close>, and a canonical path has no trailing separator except the root.
  \<open>split_sep\<close> cuts a string at every separator, \<open>parts\<close> keeps the components
  that are names, and \<open>joinpath\<close> puts names together again.
\<close>

fun split_sep :: "string \<Rightarrow> string list" where
  "split_sep [] = [[]]"
| "split_sep (c # cs) =
     (if c = CHR ''/'' then [] # split_sep cs
      else (case split_sep cs of [] \<Rightarrow> [[c]] | x # xs \<Rightarrow> (c # x) # xs))"

definition parts :: "string \<Rightarrow> string list" where
  "parts p = filter (\<lambda>c. c \<noteq> []) (split_sep p)"

fun joinpath :: "string list \<Rightarrow> string" where
  "joinpath [] = []"
| "joinpath [c] = c"
| "joinpath (c # d # ds) = c @ CHR ''/'' # joinpath (d # ds)"

text \<open>
  Modelled from the spec: every path passed to the backend is already canonical
  (section 3 of the spec), so \<^verbatim>\<open>normpath\<close> returns it as it is; the operations below
  leave the call out, and the theorems about them are stated for canonical paths.
\<close>

definition canonical :: "string \<Rightarrow> bool" where
  "canonical p \<longleftrightarrow>
     p = CHR ''/'' # joinpath (parts p) \<and> ''.'' \<notin> set (parts p) \<and> ''..'' \<notin> set (parts p)"

text \<open>
  Modelled from the spec: \<^verbatim>\<open>relpath\<close> strips the leading separator (archive names are
  root-relative), \<^verbatim>\<open>forcedir\<close> appends the trailing separator of a directory name,
  and \<^verbatim>\<open>dirname\<close> is the path of the parent: the text before the last separator.
\<close>

definition relpath :: "string \<Rightarrow> string" where
  "relpath p = dropWhile (\<lambda>c. c = CHR ''/'') p"

definition endswith_sep :: "string \<Rightarrow> bool" where
  "endswith_sep p \<longleftrightarrow> p \<noteq> [] \<and> last p = CHR ''/''"

definition forcedir :: "string \<Rightarrow> string" where
  "forcedir p = (if \<not> endswith_sep p then p @ ''/'' else p)"

definition dirname :: "string \<Rightarrow> string" where
  "dirname p =
     (if CHR ''/'' \<notin> set p then []
      else (let h = rev (tl (dropWhile (\<lambda>c. c \<noteq> CHR ''/'') (rev p)))
            in if h = [] then ''/'' else h))"

section \<open>The directory index\<close>

text \<open>
  The index is a \<^verbatim>\<open>MemoryFS\<close>, whose code is not part of the sources at hand.
  Modelled from the spec: a tree where each node is \<open>{is_directory: bool}\<close>. The tree
  is kept as the list of its nodes other than the root, each under the list of names
  that leads to it, in the order of their creation. Creating a node is idempotent:
  a node that exists already (the root always does) is left as it is.
\<close>

type_synonym MemoryFS = "(string list \<times> bool) list"

definition mknode :: "string list \<Rightarrow> bool \<Rightarrow> MemoryFS \<Rightarrow> MemoryFS" where
  "mknode q is_dir fs = (if q = [] \<or> map_of fs q \<noteq> None then fs else fs @ [(q, is_dir)])"

text \<open>
  Modelled from the spec: \<^verbatim>\<open>makedirs(path, recreate=True)\<close> creates that directory
  and all its ancestors, the outermost first; \<^verbatim>\<open>create(path)\<close> creates the entry
  itself as a file.
\<close>

definition ancestors :: "string list \<Rightarrow> string list list" where
  "ancestors q = map (\<lambda>k. take k q) [1..<Suc (length q)]"

definition makedirs :: "string \<Rightarrow> MemoryFS \<Rightarrow> MemoryFS" where
  "makedirs path fs = fold (\<lambda>q. mknode q True) (ancestors (parts path)) fs"

definition create :: "string \<Rightarrow> MemoryFS \<Rightarrow> MemoryFS" where
  "create path fs = mknode (parts path) False fs"

text \<open>
  Modelled from the spec: the queries of the index, \<open>exists(path)\<close>,
  \<open>is_directory(path)\<close>, \<open>list_children(path)\<close> and \<open>get_basic_info(path)\<close>, which
  fails with \<open>ResourceNotFound\<close> if the path is absent. \<open>list_children\<close> gives the
  names of the nodes right below the path, and fails with \<open>ResourceNotFound\<close> if the
  path does not exist; the spec names no failure for the path of a file.
\<close>

definition MemoryFS_exists :: "MemoryFS \<Rightarrow> string \<Rightarrow> bool" where
  "MemoryFS_exists fs path \<longleftrightarrow> parts path = [] \<or> map_of fs (parts path) \<noteq> None"

definition MemoryFS_isdir :: "MemoryFS \<Rightarrow> string \<Rightarrow> bool" where
  "MemoryFS_isdir fs path \<longleftrightarrow> parts path = [] \<or> map_of fs (parts path) = Some True"

definition MemoryFS_isfile :: "MemoryFS \<Rightarrow> string \<Rightarrow> bool" where
  "MemoryFS_isfile fs path \<longleftrightarrow> parts path \<noteq> [] \<and> map_of fs (parts path) = Some False"

definition MemoryFS_getinfo :: "MemoryFS \<Rightarrow> string \<Rightarrow> error + string \<times> bool" where
  "MemoryFS_getinfo fs path =
     (if parts path = [] then Inr ([], True)
      else (case map_of fs (parts path) of
              None \<Rightarrow> Inl (ResourceNotFound path)
            | Some is_dir \<Rightarrow> Inr (last (parts path), is_dir)))"

definition children :: "MemoryFS \<Rightarrow> string list \<Rightarrow> string list" where
  "children fs q = map (\<lambda>n. last (fst n)) (filter (\<lambda>n. fst n \<noteq> [] \<and> butlast (fst n) = q) fs)"

definition MemoryFS_listdir :: "MemoryFS \<Rightarrow> string \<Rightarrow> error + string list" where
  "MemoryFS_listdir fs path =
     (if \<not> MemoryFS_exists fs path then Inl (ResourceNotFound path)
      else Inr (children fs (parts path)))"

section \<open>The archive\<close>

text \<open>
  What the backend reads of the standard library's \<^verbatim>\<open>zipfile.ZipFile\<close>: the records
  of the flat table with the fields \<^verbatim>\<open>getinfo\<close> uses, each with the bytes of its
  entry. \<^verbatim>\<open>namelist()\<close> gives the names in the order of the table, and a lookup by
  name finds the last record stored under it.
\<close>

record zip_info =
  filename :: string
  file_size :: nat
  date_time :: "nat \<times> nat \<times> nat \<times> nat \<times> nat \<times> nat"
  external_attr :: "32 word"
  create_system :: nat

type_synonym archive = "(zip_info \<times> 8 word list) list"

definition namelist :: "archive \<Rightarrow> string list" where
  "namelist z = map (\<lambda>e. filename (fst e)) z"

definition zip_lookup :: "archive \<Rightarrow> string \<Rightarrow> (zip_info \<times> 8 word list) option" where
  "zip_lookup z name = map_of (map (\<lambda>e. (filename (fst e), e)) (rev z)) name"

section \<open>ReadZipFS\<close>

text \<open>
  The instance attributes of \<^verbatim>\<open>ReadZipFS\<close>: \<open>r_zip\<close> is the opened archive,
  \<open>r_zip_open\<close> whether its handle is still open, \<open>r_directory_fs\<close> the cached index
  (\<^verbatim>\<open>None\<close> until it is first asked for) and \<open>r_closed\<close> the \<^verbatim>\<open>_closed\<close> flag of the
  base class.
\<close>

record ReadZipFS =
  r_file :: target
  r_encoding :: string
  r_zip :: archive
  r_zip_open :: bool
  r_directory_fs :: "MemoryFS option"
  r_closed :: bool

definition ReadZipFS_init :: "target \<Rightarrow> string \<Rightarrow> archive \<Rightarrow> ReadZipFS" where
  "ReadZipFS_init file_arg encoding z =
     \<lparr>r_file = file_arg, r_encoding = encoding, r_zip = z, r_zip_open = True,
      r_directory_fs = None, r_closed = False\<rparr>"

text \<open>
  \<^verbatim>\<open>check\<close> and \<^verbatim>\<open>validatepath\<close> of the base class are not part of the sources at hand.
  Modelled from the spec: once a backend is closed, all further calls fail; the path
  of a call is canonical already, so validating it returns it.
\<close>

definition check :: "ReadZipFS \<Rightarrow> error + unit" where
  "check s = (if r_closed s then Inl FilesystemClosed else Inr ())"

definition validatepath :: "ReadZipFS \<Rightarrow> string \<Rightarrow> error + string" where
  "validatepath s path = (case check s of Inl e \<Rightarrow> Inl e | Inr u \<Rightarrow> Inr path)"

text \<open>
  The loop of the \<^verbatim>\<open>_directory\<close> property over \<^verbatim>\<open>self._zip.namelist()\<close>: a name that
  ends with the separator is made a directory with its ancestors; for any other name
  the ancestors are made, then the name is created as a file.
\<close>

fun load_names :: "string list \<Rightarrow> MemoryFS \<Rightarrow> MemoryFS" where
  "load_names [] fs = fs"
| "load_names (zip_name # rest) fs =
     load_names rest
       (if endswith_sep zip_name then makedirs zip_name fs
        else create zip_name (makedirs (dirname zip_name) fs))"

text \<open>
  The \<^verbatim>\<open>_directory\<close> property: \<^verbatim>\<open>check\<close>, then the index is built on the first
  call and cached; later calls return the cached index.
\<close>

definition ReadZipFS_directory :: "ReadZipFS \<Rightarrow> (error + MemoryFS) \<times> ReadZipFS" where
  "ReadZipFS_directory s =
     (case check s of
        Inl e \<Rightarrow> (Inl e, s)
      | Inr u \<Rightarrow>
          (case r_directory_fs s of
             None \<Rightarrow>
               (let fs = load_names (namelist (r_zip s)) []
                in (Inr fs, s\<lparr>r_directory_fs := Some fs\<rparr>))
           | Some fs \<Rightarrow> (Inr fs, s)))"

text \<open>\<^verbatim>\<open>_path_to_zip_name\<close>: the root-relative name, with the separator of a directory.\<close>

definition path_to_zip_name :: "ReadZipFS \<Rightarrow> string \<Rightarrow> (error + string) \<times> ReadZipFS" where
  "path_to_zip_name s path =
     (let rel = relpath path
      in (case ReadZipFS_directory s of
            (Inl e, s1) \<Rightarrow> (Inl e, s1)
          | (Inr fs, s1) \<Rightarrow> (Inr (if MemoryFS_isdir fs rel then forcedir rel else rel), s1)))"

text \<open>
  The raw info that \<^verbatim>\<open>getinfo\<close> builds: a namespace that was not filled in is
  \<open>None\<close>. \<open>access\<close> holds the mode that \<^verbatim>\<open>Permissions\<close> is built from, \<open>zip_ns\<close> the
  public fields of the archive's record.
\<close>

datatype ResourceType = ResourceType_directory | ResourceType_file

record basic_ns =
  name :: string
  is_dir :: bool

record details_ns =
  d_size :: "nat option"
  d_type :: ResourceType
  d_modified :: "int option"

record raw_info =
  basic :: basic_ns
  details :: "details_ns option"
  zip_ns :: "zip_info option"
  access :: "32 word option"

text \<open>
  \<^verbatim>\<open>datetime_to_epoch(datetime(*zip_info.date_time))\<close> rests on the standard library
  (\<^verbatim>\<open>datetime\<close> raises \<^verbatim>\<open>ValueError\<close> on fields that are no date, \<^verbatim>\<open>timegm\<close> converts);
  the conversion is a parameter of the model.
\<close>

type_synonym epoch_conv = "nat \<times> nat \<times> nat \<times> nat \<times> nat \<times> nat \<Rightarrow> error + int"

text \<open>The \<^verbatim>\<open>else\<close> block of the lookup in \<^verbatim>\<open>getinfo\<close>: the namespaces read from the record.\<close>

definition from_zip_info ::
  "epoch_conv \<Rightarrow> string list \<Rightarrow> bool \<Rightarrow> zip_info \<Rightarrow> raw_info \<Rightarrow> error + raw_info" where
  "from_zip_info epoch namespaces isd zi raw =
     (case (if ''details'' \<in> set namespaces then
              (case epoch (date_time zi) of
                 Inl e \<Rightarrow> Inl e
               | Inr t \<Rightarrow>
                   Inr (Some \<lparr>d_size = Some (file_size zi),
                              d_type = (if isd then ResourceType_directory else ResourceType_file),
                              d_modified = Some t\<rparr>))
            else Inr None) of
        Inl e \<Rightarrow> Inl e
      | Inr d \<Rightarrow>
          Inr (raw\<lparr>details := d,
                   zip_ns := (if ''zip'' \<in> set namespaces then Some zi else None),
                   access :=
                     (if ''access'' \<in> set namespaces \<and> external_attr zi \<noteq> 0 \<and> create_system zi = 3
                      then Some (drop_bit 16 (external_attr zi) AND 0xFFF) else None)\<rparr>))"

definition ReadZipFS_getinfo ::
  "epoch_conv \<Rightarrow> ReadZipFS \<Rightarrow> string \<Rightarrow> string list \<Rightarrow> (error + raw_info) \<times> ReadZipFS" where
  "ReadZipFS_getinfo epoch s path namespaces =
     (case validatepath s path of
        Inl e \<Rightarrow> (Inl e, s)
      | Inr vpath \<Rightarrow>
          if vpath = ''/'' then
            (Inr \<lparr>basic = \<lparr>name = [], is_dir = True\<rparr>,
                  details =
                    (if ''details'' \<in> set namespaces
                     then Some \<lparr>d_size = None, d_type = ResourceType_directory, d_modified = None\<rparr>
                     else None),
                  zip_ns = None, access = None\<rparr>, s)
          else
            (case ReadZipFS_directory s of
               (Inl e, s1) \<Rightarrow> (Inl e, s1)
             | (Inr fs, s1) \<Rightarrow>
                 (case MemoryFS_getinfo fs vpath of
                    Inl e \<Rightarrow> (Inl e, s1)
                  | Inr (nm, isd) \<Rightarrow>
                      (let raw = \<lparr>basic = \<lparr>name = nm, is_dir = isd\<rparr>, details = None,
                                  zip_ns = None, access = None\<rparr>
                       in if ''details'' \<in> set namespaces \<or> ''access'' \<in> set namespaces \<or>
                             ''zip'' \<in> set namespaces then
                            (case path_to_zip_name s1 path of
                               (Inl e, s2) \<Rightarrow> (Inl e, s2)
                             | (Inr zip_name, s2) \<Rightarrow>
                                 (case zip_lookup (r_zip s2) zip_name of
                                    None \<Rightarrow> (Inr raw, s2)
                                  | Some (zi, content) \<Rightarrow>
                                      (from_zip_info epoch namespaces isd zi raw, s2)))
                          else (Inr raw, s1)))))"

text \<open>The mutating methods: \<^verbatim>\<open>self.check()\<close>, then \<^verbatim>\<open>raise errors.ResourceReadOnly(path)\<close>.\<close>

definition setinfo :: "ReadZipFS \<Rightarrow> string \<Rightarrow> raw_info \<Rightarrow> (error + unit) \<times> ReadZipFS" where
  "setinfo s path info =
     (case check s of Inl e \<Rightarrow> (Inl e, s) | Inr u \<Rightarrow> (Inl (ResourceReadOnly path), s))"

definition makedir ::
  "ReadZipFS \<Rightarrow> string \<Rightarrow> 32 word option \<Rightarrow> bool \<Rightarrow> (error + unit) \<times> ReadZipFS" where
  "makedir s path permissions recreate =
     (case check s of Inl e \<Rightarrow> (Inl e, s) | Inr u \<Rightarrow> (Inl (ResourceReadOnly path), s))"

definition remove :: "ReadZipFS \<Rightarrow> string \<Rightarrow> (error + unit) \<times> ReadZipFS" where
  "remove s path =
     (case check s of Inl e \<Rightarrow> (Inl e, s) | Inr u \<Rightarrow> (Inl (ResourceReadOnly path), s))"

definition removedir :: "ReadZipFS \<Rightarrow> string \<Rightarrow> (error + unit) \<times> ReadZipFS" where
  "removedir s path =
     (case check s of Inl e \<Rightarrow> (Inl e, s) | Inr u \<Rightarrow> (Inl (ResourceReadOnly path), s))"

definition ReadZipFS_listdir :: "ReadZipFS \<Rightarrow> string \<Rightarrow> (error + string list) \<times> ReadZipFS" where
  "ReadZipFS_listdir s path =
     (case check s of
        Inl e \<Rightarrow> (Inl e, s)
      | Inr u \<Rightarrow>
          (case ReadZipFS_directory s of
             (Inl e, s1) \<Rightarrow> (Inl e, s1)
           | (Inr fs, s1) \<Rightarrow> (MemoryFS_listdir fs path, s1)))"

text \<open>A binary stream as \<^verbatim>\<open>self._zip.open\<close> returns it: the bytes of the entry and a cursor.\<close>

record stream =
  data :: "8 word list"
  pos :: nat

definition openbin ::
  "ReadZipFS \<Rightarrow> string \<Rightarrow> string \<Rightarrow> int \<Rightarrow> (error + stream) \<times> ReadZipFS" where
  "openbin s path mode buffering =
     (case check s of
        Inl e \<Rightarrow> (Inl e, s)
      | Inr u \<Rightarrow>
          if CHR ''w'' \<in> set mode \<or> CHR ''+'' \<in> set mode \<or> CHR ''a'' \<in> set mode then
            (Inl (ResourceReadOnly path), s)
          else
            (case ReadZipFS_directory s of
               (Inl e, s1) \<Rightarrow> (Inl e, s1)
             | (Inr fs, s1) \<Rightarrow>
                 if \<not> MemoryFS_exists fs path then (Inl (ResourceNotFound path), s1)
                 else if MemoryFS_isdir fs path then (Inl (FileExpected path), s1)
                 else
                   (case path_to_zip_name s1 path of
                      (Inl e, s2) \<Rightarrow> (Inl e, s2)
                    | (Inr zip_name, s2) \<Rightarrow>
                        (case zip_lookup (r_zip s2) zip_name of
                           None \<Rightarrow> (Inl (KeyError zip_name), s2)
                         | Some (zi, content) \<Rightarrow> (Inr \<lparr>data = content, pos = 0\<rparr>, s2)))))"

text \<open>\<^verbatim>\<open>ReadZipFS.close\<close>: the base class marks the instance closed, then the archive is closed.\<close>

definition ReadZipFS_close :: "ReadZipFS \<Rightarrow> ReadZipFS" where
  "ReadZipFS_close s = s\<lparr>r_closed := True, r_zip_open := False\<rparr>"

definition readbytes :: "ReadZipFS \<Rightarrow> string \<Rightarrow> (error + 8 word list) \<times> ReadZipFS" where
  "readbytes s path =
     (case check s of
        Inl e \<Rightarrow> (Inl e, s)
      | Inr u \<Rightarrow>
          (case ReadZipFS_directory s of
             (Inl e, s1) \<Rightarrow> (Inl e, s1)
           | (Inr fs, s1) \<Rightarrow>
               if \<not> MemoryFS_isfile fs path then (Inl (ResourceNotFound path), s1)
               else
                 (case path_to_zip_name s1 path of
                    (Inl e, s2) \<Rightarrow> (Inl e, s2)
                  | (Inr zip_name, s2) \<Rightarrow>
                      (case zip_lookup (r_zip s2) zip_name of
                         None \<Rightarrow> (Inl (KeyError zip_name), s2)
                       | Some (zi, content) \<Rightarrow> (Inr content, s2)))))"

text \<open>
  The index that the \<^verbatim>\<open>_directory\<close> property answers with in a state: the cached one,
  or the one built from the archive's names when none is cached yet.
\<close>

definition the_index :: "ReadZipFS \<Rightarrow> MemoryFS" where
  "the_index s =
     (case r_directory_fs s of None \<Rightarrow> load_names (namelist (r_zip s)) [] | Some fs \<Rightarrow> fs)"

text \<open>Archives and a conversion of time stamps for the concrete runs below.\<close>

definition entry :: "string \<Rightarrow> 32 word \<Rightarrow> nat \<Rightarrow> 8 word list \<Rightarrow> zip_info \<times> 8 word list" where
  "entry n attr sys content =
     (\<lparr>filename = n, file_size = length content, date_time = (1980, 1, 1, 0, 0, 0),
       external_attr = attr, create_system = sys\<rparr>, content)"

definition implied_zip :: archive where
  "implied_zip = [entry ''x/y.txt'' 0x81A40000 3 [104, 105]]"

definition explicit_zip :: archive where
  "explicit_zip = [entry ''x/'' 0x41ED0000 3 [], entry ''x/y.txt'' 0x81A40000 3 [104, 105]]"


text \<open>
  The same entry with the time stamp a zeroed DOS date leaves: month 0 and day 0,
  which \<^verbatim>\<open>datetime\<close> refuses.
\<close>

definition undated_zip :: archive where
  "undated_zip =
     [(\<lparr>filename = ''x/y.txt'', file_size = 2, date_time = (1980, 0, 0, 0, 0, 0),
        external_attr = 0x81A40000, create_system = 3\<rparr>, [104, 105])]"

definition epoch_1980 :: epoch_conv where
  "epoch_1980 d = (if d = (1980, 1, 1, 0, 0, 0) then Inr 315532800 else Inl ValueError)"

section \<open>Notions for stating and proving the claims about the index\<close>

text \<open>
  The nodes that one archive name asks for: the directories it makes (the name itself
  and its ancestors for a name that ends with the separator, the ancestors of its
  parent otherwise) and the file it creates, if any.
\<close>

definition name_dirs :: "string \<Rightarrow> string list list" where
  "name_dirs n = ancestors (parts (if endswith_sep n then n else dirname n))"

definition name_files :: "string \<Rightarrow> string list list" where
  "name_files n = (if endswith_sep n then [] else [parts n])"

definition dir_nodes :: "string list \<Rightarrow> string list list" where
  "dir_nodes ns = concat (map name_dirs ns)"

definition file_nodes :: "string list \<Rightarrow> string list list" where
  "file_nodes ns = concat (map name_files ns)"



text \<open>
  Two devices of the proofs: the flag that the first name asking for a node gives it,
  and the relation between two indexes that list the same children below a path.
\<close>

fun first_flag :: "string list \<Rightarrow> string list \<Rightarrow> bool option" where
  "first_flag [] k = None"
| "first_flag (n # ns) k =
     (if k \<in> set (name_dirs n) then Some True
      else if k \<in> set (name_files n) \<and> k \<noteq> [] then Some False
      else first_flag ns k)"

definition same_children :: "string list \<Rightarrow> MemoryFS \<Rightarrow> MemoryFS \<Rightarrow> bool" where
  "same_children q fs fs' \<longleftrightarrow>
     children fs q = children fs' q \<and>
     (\<forall>k. k \<noteq> [] \<and> butlast k = q \<longrightarrow> (map_of fs k = None \<longleftrightarrow> map_of fs' k = None))"

section \<open>The write backend's life cycle\<close>

lemma write_zip_closed: "w_closed s \<Longrightarrow> write_zip ser s f c e = (None, s)"
  by (simp add: write_zip_def isclosed_def)

lemma close_when_closed: "w_closed s \<Longrightarrow> WriteZipFS_close ser s = (None, s)"
  by (simp add: WriteZipFS_close_def isclosed_def)

lemma close_when_open:
  assumes "\<not> w_closed s"
  shows "WriteZipFS_close ser s =
     (let r = ser (w_temp_fs s) (w_file s) (w_compression s) (w_encoding s);
          s2 = s\<lparr>w_calls := w_calls s @ [(w_file s, r)],
                 w_temp_fs := (w_temp_fs s)\<lparr>released := True\<rparr>\<rparr>
      in (case r of Inl e \<Rightarrow> (Some e, s2) | Inr z \<Rightarrow> (None, s2\<lparr>w_closed := True\<rparr>)))"
  using assms
  by (simp add: WriteZipFS_close_def write_zip_def isclosed_def Let_def split: sum.splits)

text \<open>
  Claim C3, as the code has it: \<^verbatim>\<open>write_zip\<close> on a closed \<^verbatim>\<open>WriteZipFS\<close> does not fail.
  The guard \<^verbatim>\<open>if not self.isclosed()\<close> skips the body, so the call returns without an
  error, serializes nothing and leaves the instance as it was.
\<close>

theorem write_zip_on_closed_is_silent:
  assumes "isclosed s"
  shows "write_zip ser s file_arg compression encoding = (None, s)"
  using assms by (simp add: write_zip_def)

theorem write_zip_on_closed_is_silent_witness:
  "isclosed (new_WriteZipFS\<lparr>w_closed := True\<rparr>) \<and>
   write_zip zip_fails (new_WriteZipFS\<lparr>w_closed := True\<rparr>) (Some (FileName ''bar.zip'')) None None
     = (None, new_WriteZipFS\<lparr>w_closed := True\<rparr>)"
proof -
  have c: "isclosed (new_WriteZipFS\<lparr>w_closed := True\<rparr>)"
    by (simp add: isclosed_def)
  from write_zip_on_closed_is_silent
    [of "new_WriteZipFS\<lparr>w_closed := True\<rparr>" zip_fails, OF c] c
  show ?thesis by simp
qed

text \<open>
  Claim C3 as the spec states it (the call fails with an error) is false: on a closed
  instance the call returns no error.
\<close>

theorem write_zip_on_closed_succeeds_counterexample:
  "isclosed (new_WriteZipFS\<lparr>w_closed := True\<rparr>) \<and>
   fst (write_zip zip_ok (new_WriteZipFS\<lparr>w_closed := True\<rparr>) None None None) = None"
  by (simp add: write_zip_def isclosed_def)

text \<open>
  Claim C4: if the serialization of the scratch tree fails during \<^verbatim>\<open>close()\<close> of an
  instance that is not closed, the error reaches the caller, and in the state the
  caller is left with the scratch filesystem has been closed.
\<close>

theorem close_releases_scratch_on_failure:
  assumes "\<not> isclosed s"
    and "ser (w_temp_fs s) (w_file s) (w_compression s) (w_encoding s) = Inl e"
  shows "fst (WriteZipFS_close ser s) = Some e \<and>
         released (w_temp_fs (snd (WriteZipFS_close ser s)))"
  using assms by (simp add: close_when_open isclosed_def Let_def)

theorem close_releases_scratch_on_failure_witness:
  "\<not> isclosed new_WriteZipFS \<and>
   zip_fails (w_temp_fs new_WriteZipFS) (w_file new_WriteZipFS) (w_compression new_WriteZipFS)
     (w_encoding new_WriteZipFS) = Inl (WriteFailed ''disk full'') \<and>
   fst (WriteZipFS_close zip_fails new_WriteZipFS) = Some (WriteFailed ''disk full'') \<and>
   released (w_temp_fs (snd (WriteZipFS_close zip_fails new_WriteZipFS)))"
proof -
  have o: "\<not> isclosed new_WriteZipFS"
    by (simp add: isclosed_def new_WriteZipFS_def)
  have f: "zip_fails (w_temp_fs new_WriteZipFS) (w_file new_WriteZipFS)
      (w_compression new_WriteZipFS) (w_encoding new_WriteZipFS) = Inl (WriteFailed ''disk full'')"
    by (simp add: zip_fails_def)
  from close_releases_scratch_on_failure [of new_WriteZipFS zip_fails, OF o f] o f
  show ?thesis by simp
qed

text \<open>
  Where a \<^verbatim>\<open>close()\<close> of a \<^verbatim>\<open>WriteZipFS\<close> returns without an error, \<^verbatim>\<open>close()\<close> is
  idempotent: a further \<^verbatim>\<open>close()\<close> returns without an error and changes nothing, so
  nothing is serialized again; the \<^verbatim>\<open>close()\<close> that returned serialized once if the
  instance was open, and not at all if it was closed. A second \<^verbatim>\<open>close()\<close> of a
  \<^verbatim>\<open>ReadZipFS\<close> changes nothing either.
\<close>

lemma close_idempotent_after_success:
  assumes "fst (WriteZipFS_close ser s) = None"
  shows "WriteZipFS_close ser (snd (WriteZipFS_close ser s)) = (None, snd (WriteZipFS_close ser s)) \<and>
         w_calls (snd (WriteZipFS_close ser s)) =
           (if isclosed s then w_calls s
            else w_calls s @
              [(w_file s, ser (w_temp_fs s) (w_file s) (w_compression s) (w_encoding s))]) \<and>
         ReadZipFS_close (ReadZipFS_close r) = ReadZipFS_close r"
proof (cases "w_closed s")
  case True
  then show ?thesis
    by (simp add: close_when_closed isclosed_def ReadZipFS_close_def)
next
  case False
  with assms obtain z
    where "ser (w_temp_fs s) (w_file s) (w_compression s) (w_encoding s) = Inr z"
    by (auto simp: close_when_open Let_def split: sum.splits)
  with False show ?thesis
    by (simp add: close_when_open close_when_closed isclosed_def Let_def ReadZipFS_close_def)
qed

lemma close_idempotent_after_success_run:
  "fst (WriteZipFS_close zip_ok new_WriteZipFS) = None \<and>
   WriteZipFS_close zip_ok (snd (WriteZipFS_close zip_ok new_WriteZipFS))
     = (None, snd (WriteZipFS_close zip_ok new_WriteZipFS)) \<and>
   w_calls (snd (WriteZipFS_close zip_ok new_WriteZipFS))
     = [(FileName ''foo.zip'', Inr [''readme.txt''])]"
proof -
  have f: "fst (WriteZipFS_close zip_ok new_WriteZipFS) = None"
    by (simp add: WriteZipFS_close_def write_zip_def isclosed_def new_WriteZipFS_def zip_ok_def)
  have c: "\<not> isclosed new_WriteZipFS"
    by (simp add: isclosed_def new_WriteZipFS_def)
  from close_idempotent_after_success
    [of zip_ok new_WriteZipFS, OF f,
     of "ReadZipFS_init (FileName ''foo.zip'') ''utf-8'' implied_zip"] f c
  show ?thesis by (simp add: new_WriteZipFS_def zip_ok_def)
qed

text \<open>
  Claim C2 (\<^verbatim>\<open>close()\<close> is idempotent for every \<^verbatim>\<open>WriteZipFS\<close>: only the first call
  serializes, and a later call produces no error and has no effect) does not hold of
  the code where the serialization fails in the first \<^verbatim>\<open>close()\<close>. The call of the base
  class's \<^verbatim>\<open>close\<close> stands after the \<^verbatim>\<open>try ... finally\<close>, so the exception skips it:
  the first \<^verbatim>\<open>close()\<close> releases the scratch filesystem and leaves the instance not
  closed, and the second \<^verbatim>\<open>close()\<close> passes the guard \<^verbatim>\<open>if not self.isclosed()\<close>, calls
  the serializer a second time, on the released scratch filesystem, and raises again.
\<close>

theorem second_close_after_failed_flush:
  "\<not> isclosed new_WriteZipFS \<and>
   fst (WriteZipFS_close zip_fails new_WriteZipFS) = Some (WriteFailed ''disk full'') \<and>
   \<not> isclosed (snd (WriteZipFS_close zip_fails new_WriteZipFS)) \<and>
   released (w_temp_fs (snd (WriteZipFS_close zip_fails new_WriteZipFS))) \<and>
   fst (WriteZipFS_close zip_fails (snd (WriteZipFS_close zip_fails new_WriteZipFS)))
     = Some (WriteFailed ''disk full'') \<and>
   length (w_calls (snd (WriteZipFS_close zip_fails
     (snd (WriteZipFS_close zip_fails new_WriteZipFS))))) = 2"
  by (simp add: WriteZipFS_close_def write_zip_def isclosed_def new_WriteZipFS_def
      zip_fails_def Let_def)

section \<open>The read backend refuses every mutation\<close>

text \<open>
  Claim C1: on a \<^verbatim>\<open>ReadZipFS\<close> that is not closed, \<^verbatim>\<open>setinfo\<close>, \<^verbatim>\<open>makedir\<close>, \<^verbatim>\<open>openbin\<close>
  with a mode that contains \<open>w\<close>, \<open>+\<close> or \<open>a\<close>, \<^verbatim>\<open>remove\<close> and \<^verbatim>\<open>removedir\<close> fail with
  \<open>ResourceReadOnly\<close> carrying the path, whatever the path is and whether or not it
  exists, and leave the state (the archive and the cached index with it) as it was.
\<close>

theorem mutators_fail_read_only:
  assumes "\<not> r_closed s"
    and "CHR ''w'' \<in> set mode \<or> CHR ''+'' \<in> set mode \<or> CHR ''a'' \<in> set mode"
  shows "setinfo s p info = (Inl (ResourceReadOnly p), s) \<and>
         makedir s p permissions recreate = (Inl (ResourceReadOnly p), s) \<and>
         openbin s p mode buffering = (Inl (ResourceReadOnly p), s) \<and>
         remove s p = (Inl (ResourceReadOnly p), s) \<and>
         removedir s p = (Inl (ResourceReadOnly p), s)"
  using assms
  by (simp add: setinfo_def makedir_def openbin_def remove_def removedir_def check_def)

theorem mutators_fail_read_only_witness:
  "\<not> r_closed (ReadZipFS_init (FileName ''foo.zip'') ''utf-8'' implied_zip) \<and>
   openbin (ReadZipFS_init (FileName ''foo.zip'') ''utf-8'' implied_zip) ''/x/new.txt'' ''wb'' (- 1)
     = (Inl (ResourceReadOnly ''/x/new.txt''),
        ReadZipFS_init (FileName ''foo.zip'') ''utf-8'' implied_zip) \<and>
   remove (ReadZipFS_init (FileName ''foo.zip'') ''utf-8'' implied_zip) ''/x/y.txt''
     = (Inl (ResourceReadOnly ''/x/y.txt''),
        ReadZipFS_init (FileName ''foo.zip'') ''utf-8'' implied_zip)"
proof -
  let ?s = "ReadZipFS_init (FileName ''foo.zip'') ''utf-8'' implied_zip"
  have o: "\<not> r_closed ?s"
    by (simp add: ReadZipFS_init_def)
  have m: "CHR ''w'' \<in> set ''wb'' \<or> CHR ''+'' \<in> set ''wb'' \<or> CHR ''a'' \<in> set ''wb''"
    by simp
  from mutators_fail_read_only [of ?s "''wb''" "''/x/new.txt''", OF o m]
    mutators_fail_read_only [of ?s "''wb''" "''/x/y.txt''", OF o m] o
  show ?thesis by simp
qed

section \<open>The read backend's queries\<close>

lemma parts_Cons_sep: "parts (CHR ''/'' # p) = parts p"
  by (simp add: parts_def)

lemma parts_relpath: "parts (relpath p) = parts p"
  unfolding relpath_def by (induction p) (simp_all add: parts_Cons_sep)

lemma directory_open:
  "\<not> r_closed s \<Longrightarrow>
   ReadZipFS_directory s = (Inr (the_index s), s\<lparr>r_directory_fs := Some (the_index s)\<rparr>)"
  by (simp add: ReadZipFS_directory_def check_def the_index_def Let_def split: option.splits)

lemma the_index_cached: "the_index (s\<lparr>r_directory_fs := Some fs\<rparr>) = fs"
  by (simp add: the_index_def)

lemma path_to_zip_name_open:
  "\<not> r_closed s \<Longrightarrow>
   path_to_zip_name s p =
     (Inr (if MemoryFS_isdir (the_index s) p then forcedir (relpath p) else relpath p),
      s\<lparr>r_directory_fs := Some (the_index s)\<rparr>)"
  by (simp add: path_to_zip_name_def directory_open Let_def MemoryFS_isdir_def parts_relpath)

lemma canonical_parts: "canonical p \<Longrightarrow> p \<noteq> ''/'' \<Longrightarrow> parts p \<noteq> []"
  by (auto simp: canonical_def)

text \<open>
  Claim C10: on a \<^verbatim>\<open>ReadZipFS\<close> that is not closed, \<^verbatim>\<open>readbytes\<close> of a path that
  exists and is a directory raises \<open>ResourceNotFound\<close> (not \<open>FileExpected\<close>): the
  method only tests \<^verbatim>\<open>isfile\<close>.
\<close>

theorem readbytes_directory_not_found:
  assumes "\<not> r_closed s" and "MemoryFS_exists (the_index s) p" and "MemoryFS_isdir (the_index s) p"
  shows "fst (readbytes s p) = Inl (ResourceNotFound p)"
  using assms
  by (auto simp: readbytes_def check_def directory_open MemoryFS_isfile_def MemoryFS_isdir_def)

theorem readbytes_directory_not_found_witness:
  "\<not> r_closed (ReadZipFS_init (FileName ''foo.zip'') ''utf-8'' implied_zip) \<and>
   MemoryFS_exists (the_index (ReadZipFS_init (FileName ''foo.zip'') ''utf-8'' implied_zip)) ''/x'' \<and>
   MemoryFS_isdir (the_index (ReadZipFS_init (FileName ''foo.zip'') ''utf-8'' implied_zip)) ''/x'' \<and>
   fst (readbytes (ReadZipFS_init (FileName ''foo.zip'') ''utf-8'' implied_zip) ''/x'')
     = Inl (ResourceNotFound ''/x'')"
proof -
  let ?s = "ReadZipFS_init (FileName ''foo.zip'') ''utf-8'' implied_zip"
  have o: "\<not> r_closed ?s" by (simp add: ReadZipFS_init_def)
  have e: "MemoryFS_exists (the_index ?s) ''/x''" by code_simp
  have d: "MemoryFS_isdir (the_index ?s) ''/x''" by code_simp
  from readbytes_directory_not_found [OF o e d] o e d show ?thesis by simp
qed

text \<open>
  Claim C7: for an existing path other than the root whose mapped archive name has no
  record in the archive (a directory that is only implied), \<^verbatim>\<open>getinfo\<close> succeeds
  whatever namespaces are asked for, and returns the basic namespace alone: the
  namespaces that depend on the record are left out.
\<close>

theorem getinfo_implied_directory:
  assumes "\<not> r_closed s" and "canonical p" and "p \<noteq> ''/''"
    and "MemoryFS_exists (the_index s) p"
    and "fst (path_to_zip_name s p) = Inr zip_name"
    and "zip_lookup (r_zip s) zip_name = None"
  shows "fst (ReadZipFS_getinfo epoch s p namespaces) =
           Inr \<lparr>basic = \<lparr>name = last (parts p), is_dir = MemoryFS_isdir (the_index s) p\<rparr>,
                details = None, zip_ns = None, access = None\<rparr>"
proof -
  from assms(2,3) have ne: "parts p \<noteq> []" by (rule canonical_parts)
  with assms(4) obtain b where b: "map_of (the_index s) (parts p) = Some b"
    by (auto simp: MemoryFS_exists_def)
  with ne have gi: "MemoryFS_getinfo (the_index s) p = Inr (last (parts p), b)"
    by (simp add: MemoryFS_getinfo_def)
  from b ne have isd: "MemoryFS_isdir (the_index s) p = b"
    by (auto simp: MemoryFS_isdir_def)
  let ?s1 = "s\<lparr>r_directory_fs := Some (the_index s)\<rparr>"
  have c1: "\<not> r_closed ?s1" using assms(1) by simp
  from assms(1,5) have zn: "zip_name = (if MemoryFS_isdir (the_index s) p then forcedir (relpath p) else relpath p)"
    by (simp add: path_to_zip_name_open)
  have p1: "path_to_zip_name ?s1 p = (Inr zip_name, ?s1)"
    using c1 zn by (simp add: path_to_zip_name_open the_index_cached)
  show ?thesis
    using assms(1,3,6) gi isd p1
    by (simp add: ReadZipFS_getinfo_def validatepath_def check_def directory_open Let_def)
qed

theorem getinfo_implied_directory_witness:
  "\<not> r_closed (ReadZipFS_init (FileName ''foo.zip'') ''utf-8'' implied_zip) \<and>
   canonical ''/x'' \<and>
   MemoryFS_exists (the_index (ReadZipFS_init (FileName ''foo.zip'') ''utf-8'' implied_zip)) ''/x'' \<and>
   fst (path_to_zip_name (ReadZipFS_init (FileName ''foo.zip'') ''utf-8'' implied_zip) ''/x'')
     = Inr ''x/'' \<and>
   zip_lookup (r_zip (ReadZipFS_init (FileName ''foo.zip'') ''utf-8'' implied_zip)) ''x/'' = None \<and>
   fst (ReadZipFS_getinfo epoch_1980 (ReadZipFS_init (FileName ''foo.zip'') ''utf-8'' implied_zip)
          ''/x'' [''details'', ''access'', ''zip''])
     = Inr \<lparr>basic = \<lparr>name = ''x'', is_dir = True\<rparr>, details = None, zip_ns = None,
            access = None\<rparr>"
proof -
  let ?s = "ReadZipFS_init (FileName ''foo.zip'') ''utf-8'' implied_zip"
  have o: "\<not> r_closed ?s" by (simp add: ReadZipFS_init_def)
  have c: "canonical ''/x''" by code_simp
  have n: "''/x'' \<noteq> ''/''" by simp
  have e: "MemoryFS_exists (the_index ?s) ''/x''" by code_simp
  have z: "fst (path_to_zip_name ?s ''/x'') = Inr ''x/''" by code_simp
  have l: "zip_lookup (r_zip ?s) ''x/'' = None" by code_simp
  have d: "MemoryFS_isdir (the_index ?s) ''/x''" by code_simp
  have p: "last (parts ''/x'') = ''x''" by code_simp
  from getinfo_implied_directory
    [OF o c n e z l, of epoch_1980 "[''details'', ''access'', ''zip'']"] o c e z l d p
  show ?thesis by simp
qed

text \<open>
  Claim C9: for an existing path other than the root whose archive record is present,
  \<^verbatim>\<open>getinfo\<close> with the access namespace asked for fills in the permissions if and
  only if the record's \<^verbatim>\<open>create_system\<close> is 3 (POSIX) and its \<^verbatim>\<open>external_attr\<close> is not
  zero, and the mode is then \<^verbatim>\<open>(external_attr >> 16) & 0xFFF\<close>. This is the claim
  as the code has it, with one condition more than the spec states: where the details
  namespace is asked for too, the record's time stamp has to be a date, since
  \<^verbatim>\<open>datetime\<close> is called, and raises, before the access namespace is looked at.
\<close>

theorem getinfo_access_permissions:
  assumes "\<not> r_closed s" and "canonical p" and "p \<noteq> ''/''"
    and "MemoryFS_exists (the_index s) p"
    and "fst (path_to_zip_name s p) = Inr zip_name"
    and "zip_lookup (r_zip s) zip_name = Some (zi, content)"
    and "''access'' \<in> set namespaces"
    and "''details'' \<in> set namespaces \<longrightarrow> epoch (date_time zi) = Inr t"
  shows "\<exists>info. fst (ReadZipFS_getinfo epoch s p namespaces) = Inr info \<and>
           access info =
             (if create_system zi = 3 \<and> external_attr zi \<noteq> 0
              then Some (drop_bit 16 (external_attr zi) AND 0xFFF) else None)"
proof -
  from assms(2,3) have ne: "parts p \<noteq> []" by (rule canonical_parts)
  with assms(4) obtain b where b: "map_of (the_index s) (parts p) = Some b"
    by (auto simp: MemoryFS_exists_def)
  with ne have gi: "MemoryFS_getinfo (the_index s) p = Inr (last (parts p), b)"
    by (simp add: MemoryFS_getinfo_def)
  let ?s1 = "s\<lparr>r_directory_fs := Some (the_index s)\<rparr>"
  have c1: "\<not> r_closed ?s1" using assms(1) by simp
  from assms(1,5) have zn: "zip_name = (if MemoryFS_isdir (the_index s) p then forcedir (relpath p) else relpath p)"
    by (simp add: path_to_zip_name_open)
  have p1: "path_to_zip_name ?s1 p = (Inr zip_name, ?s1)"
    using c1 zn by (simp add: path_to_zip_name_open the_index_cached)
  show ?thesis
    using assms(1,3,6,7,8) gi p1
    by (auto simp: ReadZipFS_getinfo_def validatepath_def check_def directory_open Let_def
        from_zip_info_def)
qed

theorem getinfo_access_permissions_witness:
  "\<not> r_closed (ReadZipFS_init (FileName ''foo.zip'') ''utf-8'' implied_zip) \<and>
   canonical ''/x/y.txt'' \<and>
   MemoryFS_exists (the_index (ReadZipFS_init (FileName ''foo.zip'') ''utf-8'' implied_zip))
     ''/x/y.txt'' \<and>
   fst (path_to_zip_name (ReadZipFS_init (FileName ''foo.zip'') ''utf-8'' implied_zip) ''/x/y.txt'')
     = Inr ''x/y.txt'' \<and>
   zip_lookup (r_zip (ReadZipFS_init (FileName ''foo.zip'') ''utf-8'' implied_zip)) ''x/y.txt''
     = Some (entry ''x/y.txt'' 0x81A40000 3 [104, 105]) \<and>
   epoch_1980 (date_time (fst (entry ''x/y.txt'' 0x81A40000 3 [104, 105]))) = Inr 315532800 \<and>
   (\<exists>info. fst (ReadZipFS_getinfo epoch_1980
                   (ReadZipFS_init (FileName ''foo.zip'') ''utf-8'' implied_zip) ''/x/y.txt''
                   [''details'', ''access'']) = Inr info \<and>
           access info = Some 0x1A4)"
proof -
  let ?s = "ReadZipFS_init (FileName ''foo.zip'') ''utf-8'' implied_zip"
  let ?zi = "fst (entry ''x/y.txt'' 0x81A40000 3 [104, 105])"
  have o: "\<not> r_closed ?s" by (simp add: ReadZipFS_init_def)
  have c: "canonical ''/x/y.txt''" by code_simp
  have n: "''/x/y.txt'' \<noteq> ''/''" by simp
  have e: "MemoryFS_exists (the_index ?s) ''/x/y.txt''" by code_simp
  have z: "fst (path_to_zip_name ?s ''/x/y.txt'') = Inr ''x/y.txt''" by code_simp
  have l: "zip_lookup (r_zip ?s) ''x/y.txt'' = Some (?zi, [104, 105])" by code_simp
  have a: "''access'' \<in> set [''details'', ''access'']" by simp
  have t: "epoch_1980 (date_time ?zi) = Inr 315532800" by (simp add: epoch_1980_def entry_def)
  then have t': "''details'' \<in> set [''details'', ''access''] \<longrightarrow>
      epoch_1980 (date_time ?zi) = Inr 315532800" by simp
  have m: "(if create_system ?zi = 3 \<and> external_attr ?zi \<noteq> 0
            then Some (drop_bit 16 (external_attr ?zi) AND 0xFFF) else None) = Some 0x1A4"
    by (simp add: entry_def)
  have l': "zip_lookup (r_zip ?s) ''x/y.txt'' = Some (entry ''x/y.txt'' 0x81A40000 3 [104, 105])"
    using l by (simp add: entry_def)
  from getinfo_access_permissions
    [where s = "?s" and p = "''/x/y.txt''" and zip_name = "''x/y.txt''" and zi = "?zi"
       and content = "[104, 105]" and namespaces = "[''details'', ''access'']"
       and epoch = epoch_1980 and t = 315532800, OF o c n e z l a t'] m o c e z l' t
  show ?thesis by simp
qed

text \<open>
  Claim C9 as the spec states it, with no condition on the time stamp, is false: for
  an existing file whose record is present and comes from a POSIX system with
  attribute bits set, but carries a zeroed date, \<^verbatim>\<open>getinfo\<close> with the details and the
  access namespaces raises \<open>ValueError\<close> and fills in no permissions.
\<close>

theorem getinfo_access_undated_counterexample:
  "\<not> r_closed (ReadZipFS_init (FileName ''foo.zip'') ''utf-8'' undated_zip) \<and>
   canonical ''/x/y.txt'' \<and>
   MemoryFS_exists (the_index (ReadZipFS_init (FileName ''foo.zip'') ''utf-8'' undated_zip))
     ''/x/y.txt'' \<and>
   fst (path_to_zip_name (ReadZipFS_init (FileName ''foo.zip'') ''utf-8'' undated_zip) ''/x/y.txt'')
     = Inr ''x/y.txt'' \<and>
   zip_lookup (r_zip (ReadZipFS_init (FileName ''foo.zip'') ''utf-8'' undated_zip)) ''x/y.txt''
     = Some (\<lparr>filename = ''x/y.txt'', file_size = 2, date_time = (1980, 0, 0, 0, 0, 0),
              external_attr = 0x81A40000, create_system = 3\<rparr>, [104, 105]) \<and>
   ''access'' \<in> set [''details'', ''access''] \<and>
   fst (ReadZipFS_getinfo epoch_1980
          (ReadZipFS_init (FileName ''foo.zip'') ''utf-8'' undated_zip) ''/x/y.txt''
          [''details'', ''access'']) = Inl ValueError"
  by code_simp

section \<open>Splitting and joining paths\<close>

lemma split_sep_ne: "split_sep s \<noteq> []"
  by (induction s) (simp_all split: list.splits)


lemma split_sep_plain: "CHR ''/'' \<notin> set s \<Longrightarrow> split_sep s = [s]"
  by (induction s) auto

lemma split_sep_append: "split_sep (h @ CHR ''/'' # t) = split_sep h @ split_sep t"
proof (induction h)
  case Nil
  then show ?case by simp
next
  case (Cons c h)
  obtain y ys where y: "split_sep h = y # ys"
    using split_sep_ne [of h] by (cases "split_sep h") auto
  with Cons show ?case by simp
qed

lemma parts_append: "parts (h @ CHR ''/'' # t) = parts h @ parts t"
  by (simp add: parts_def split_sep_append)

lemma parts_plain: "CHR ''/'' \<notin> set s \<Longrightarrow> parts s = (if s = [] then [] else [s])"
  by (simp add: parts_def split_sep_plain)


lemma parts_forcedir: "parts (forcedir s) = parts s"
  using parts_append [of s "[]"] by (simp add: forcedir_def parts_def)

lemma parts_dirname:
  assumes "\<not> endswith_sep n"
  shows "parts (dirname n) = butlast (parts n)"
proof (cases "CHR ''/'' \<in> set n")
  case False
  then show ?thesis by (simp add: dirname_def parts_plain)
next
  case True
  then obtain h t where n: "n = h @ CHR ''/'' # t" and t: "CHR ''/'' \<notin> set t"
    using split_list_last [of "CHR ''/''" n] by blast
  from assms n have tne: "t \<noteq> []" by (auto simp: endswith_sep_def)
  have "rev n = rev t @ CHR ''/'' # rev h" by (simp add: n)
  moreover have "dropWhile (\<lambda>c. c \<noteq> CHR ''/'') (rev t @ CHR ''/'' # rev h) =
      dropWhile (\<lambda>c. c \<noteq> CHR ''/'') (CHR ''/'' # rev h)"
    by (rule dropWhile_append2) (use t in auto)
  ultimately have "dirname n = (if h = [] then ''/'' else h)"
    using True by (simp add: dirname_def)
  then have "parts (dirname n) = parts h"
    by (simp add: parts_def)
  moreover have "parts n = parts h @ [t]"
    using t tne by (simp add: n parts_append parts_plain)
  ultimately show ?thesis by simp
qed



lemma endswith_sep_forcedir: "endswith_sep (forcedir x)"
  by (simp add: forcedir_def endswith_sep_def)

section \<open>The index as a function of the archive's names\<close>

lemma mknode_lookup:
  "map_of (mknode q b fs) k =
     (if k = q \<and> q \<noteq> [] \<and> map_of fs q = None then Some b else map_of fs k)"
  by (auto simp: mknode_def map_add_def split: option.splits)

lemma fold_mknode_lookup:
  "map_of (fold (\<lambda>q. mknode q b) qs fs) k =
     (case map_of fs k of
        Some x \<Rightarrow> Some x
      | None \<Rightarrow> if k \<in> set qs \<and> k \<noteq> [] then Some b else None)"
proof (induction qs arbitrary: fs)
  case Nil
  then show ?case by (simp split: option.splits)
next
  case (Cons q qs)
  show ?case
    by (simp add: Cons.IH mknode_lookup split: option.splits) auto
qed

lemma ancestors_nonempty: "[] \<notin> set (ancestors q)"
  unfolding ancestors_def set_map set_upt by auto

lemma ancestors_prefix: "d \<noteq> [] \<Longrightarrow> d \<in> set (ancestors (d @ r))"
proof -
  assume "d \<noteq> []"
  then have "1 \<le> length d" by (cases d) simp_all
  then have "length d \<in> set [1..<Suc (length (d @ r))]"
    unfolding set_upt by simp
  then have "take (length d) (d @ r) \<in> set (ancestors (d @ r))"
    unfolding ancestors_def set_map by (rule imageI)
  then show ?thesis by simp
qed

lemma ancestors_shorter: "k \<in> set (ancestors q) \<Longrightarrow> k \<noteq> [] \<and> length k \<le> length q"
  unfolding ancestors_def set_map set_upt by auto

lemma ancestors_not_child: "k \<in> set (ancestors q) \<Longrightarrow> \<not> (k \<noteq> [] \<and> butlast k = q)"
proof
  assume k: "k \<in> set (ancestors q)" and c: "k \<noteq> [] \<and> butlast k = q"
  from k have "length k \<le> length q" using ancestors_shorter by blast
  moreover from c have "length (butlast k) = length q" by simp
  then have "length q = length k - 1" by simp
  moreover from c have "length k \<noteq> 0" by simp
  ultimately show False by arith
qed

lemma step_lookup:
  "map_of (if endswith_sep n then makedirs n fs else create n (makedirs (dirname n) fs)) k =
     (case map_of fs k of
        Some x \<Rightarrow> Some x
      | None \<Rightarrow>
          if k \<in> set (name_dirs n) then Some True
          else if k \<in> set (name_files n) \<and> k \<noteq> [] then Some False
          else None)"
proof (cases "endswith_sep n")
  case True
  then show ?thesis
    using ancestors_nonempty [of "parts n"]
    by (auto simp: makedirs_def fold_mknode_lookup name_dirs_def name_files_def
        split: option.splits)
next
  case False
  then show ?thesis
    using ancestors_nonempty [of "parts (dirname n)"]
    by (auto simp: makedirs_def create_def mknode_lookup fold_mknode_lookup name_dirs_def
        name_files_def split: option.splits)
qed

lemma load_names_lookup:
  "map_of (load_names ns fs) k =
     (case map_of fs k of Some x \<Rightarrow> Some x | None \<Rightarrow> first_flag ns k)"
proof (induction ns arbitrary: fs)
  case Nil
  then show ?case by (simp split: option.splits)
next
  case (Cons n ns)
  show ?case
    unfolding load_names.simps Cons.IH step_lookup
    by (simp split: option.splits)
qed

lemma load_names_append: "load_names (a @ b) fs = load_names b (load_names a fs)"
  by (induction a arbitrary: fs) simp_all


lemma first_flag_False:
  "first_flag ns k = Some False \<Longrightarrow> k \<in> set (file_nodes ns) \<and> k \<noteq> []"
  by (induction ns) (auto simp: file_nodes_def split: if_splits)

lemma first_flag_None:
  "first_flag ns k = None \<longleftrightarrow>
     k \<notin> set (dir_nodes ns) \<and> (k \<notin> set (file_nodes ns) \<or> k = [])"
  by (induction ns) (auto simp: dir_nodes_def file_nodes_def)


lemma set_dir_nodes: "set (dir_nodes ns) = (\<Union>n\<in>set ns. set (name_dirs n))"
  by (simp add: dir_nodes_def)

lemma set_file_nodes: "set (file_nodes ns) = (\<Union>n\<in>set ns. set (name_files n))"
  by (simp add: file_nodes_def)


lemma implied_dir_flag:
  assumes "n \<in> set ns" and "\<not> endswith_sep n" and "parts n = q @ rest" and "rest \<noteq> []"
    and "q \<noteq> []" and "\<forall>m\<in>set ns. \<not> endswith_sep m \<longrightarrow> parts m \<noteq> q"
  shows "map_of (load_names ns []) q = Some True"
proof -
  have "parts (dirname n) = q @ butlast rest"
    using assms(2,3,4) by (simp add: parts_dirname butlast_append)
  then have "q \<in> set (name_dirs n)"
    using assms(2,5) by (simp add: name_dirs_def ancestors_prefix)
  with assms(1) have d: "q \<in> set (dir_nodes ns)"
    by (auto simp: set_dir_nodes)
  have f: "q \<notin> set (file_nodes ns)"
    using assms(6) by (auto simp: set_file_nodes name_files_def split: if_splits)
  have "first_flag ns q \<noteq> None" using d by (simp add: first_flag_None)
  moreover have "first_flag ns q \<noteq> Some False" using f first_flag_False by blast
  ultimately have "first_flag ns q = Some True" by (cases "first_flag ns q") auto
  then show ?thesis by (simp add: load_names_lookup)
qed


section \<open>Opening a file for reading\<close>




section \<open>The order of the archive's entries\<close>




section \<open>Implied directories\<close>

lemma children_mknode:
  "children (mknode k b fs) q =
     (if k \<noteq> [] \<and> butlast k = q \<and> map_of fs k = None then children fs q @ [last k]
      else children fs q)"
  by (auto simp: mknode_def children_def)

lemma same_children_refl: "same_children q fs fs"
  by (simp add: same_children_def)

lemma same_children_mknode:
  assumes "same_children q fs fs'"
  shows "same_children q (mknode k b fs) (mknode k b fs')"
proof (cases "k \<noteq> [] \<and> butlast k = q")
  case True
  with assms have "map_of fs k = None \<longleftrightarrow> map_of fs' k = None"
    by (simp add: same_children_def)
  with assms show ?thesis
    by (auto simp: same_children_def children_mknode mknode_lookup)
next
  case False
  with assms show ?thesis
    by (auto simp: same_children_def children_mknode mknode_lookup)
qed

lemma same_children_mknode_right:
  assumes "same_children q fs fs'" and "\<not> (k \<noteq> [] \<and> butlast k = q)"
  shows "same_children q fs (mknode k b fs')"
  using assms by (auto simp: same_children_def children_mknode mknode_lookup)

lemma same_children_fold:
  "same_children q fs fs' \<Longrightarrow>
   same_children q (fold (\<lambda>k. mknode k b) ks fs) (fold (\<lambda>k. mknode k b) ks fs')"
  by (induction ks arbitrary: fs fs') (simp_all add: same_children_mknode)

lemma same_children_fold_right:
  "same_children q fs fs' \<Longrightarrow> \<forall>k\<in>set ks. \<not> (k \<noteq> [] \<and> butlast k = q) \<Longrightarrow>
   same_children q fs (fold (\<lambda>k. mknode k b) ks fs')"
  by (induction ks arbitrary: fs') (simp_all add: same_children_mknode_right)

lemma same_children_load:
  "same_children q fs fs' \<Longrightarrow> same_children q (load_names ns fs) (load_names ns fs')"
proof (induction ns arbitrary: fs fs')
  case Nil
  then show ?case by simp
next
  case (Cons n ns)
  have "same_children q
      (if endswith_sep n then makedirs n fs else create n (makedirs (dirname n) fs))
      (if endswith_sep n then makedirs n fs' else create n (makedirs (dirname n) fs'))"
    using Cons.prems
    by (simp add: makedirs_def create_def same_children_fold same_children_mknode)
  then show ?case by (simp add: Cons.IH)
qed

lemma children_explicit:
  assumes "endswith_sep dn" and "parts dn = q"
  shows "children (load_names (ns1 @ dn # ns2) []) q = children (load_names (ns1 @ ns2) []) q"
proof -
  let ?fs = "load_names ns1 []"
  have "same_children q ?fs (makedirs dn ?fs)"
    unfolding makedirs_def
  proof (rule same_children_fold_right [OF same_children_refl], rule ballI)
    fix k
    assume "k \<in> set (ancestors (parts dn))"
    then show "\<not> (k \<noteq> [] \<and> butlast k = q)"
      unfolding assms(2) by (rule ancestors_not_child)
  qed
  then have "same_children q (load_names ns2 ?fs) (load_names ns2 (makedirs dn ?fs))"
    by (rule same_children_load)
  then show ?thesis
    using assms(1) by (simp add: load_names_append same_children_def)
qed

lemma getinfo_fresh_dir:
  assumes "canonical p" and "p \<noteq> ''/''"
    and "map_of (load_names (namelist z) []) (parts p) = Some True"
  shows "fst (ReadZipFS_getinfo epoch (ReadZipFS_init f enc z) p []) =
           Inr \<lparr>basic = \<lparr>name = last (parts p), is_dir = True\<rparr>,
                details = None, zip_ns = None, access = None\<rparr>"
proof -
  let ?s = "ReadZipFS_init f enc z"
  have o: "\<not> r_closed ?s" by (simp add: ReadZipFS_init_def)
  have i: "the_index ?s = load_names (namelist z) []"
    by (simp add: the_index_def ReadZipFS_init_def)
  from assms(1,2) have ne: "parts p \<noteq> []" by (rule canonical_parts)
  with assms(3) have "MemoryFS_getinfo (the_index ?s) p = Inr (last (parts p), True)"
    by (simp add: MemoryFS_getinfo_def i)
  with o assms(2) show ?thesis
    by (simp add: ReadZipFS_getinfo_def validatepath_def check_def directory_open Let_def)
qed

lemma listdir_fresh:
  assumes "map_of (load_names (namelist z) []) (parts p) = Some b"
  shows "fst (ReadZipFS_listdir (ReadZipFS_init f enc z) p) =
           Inr (children (load_names (namelist z) []) (parts p))"
proof -
  let ?s = "ReadZipFS_init f enc z"
  have o: "\<not> r_closed ?s" by (simp add: ReadZipFS_init_def)
  have i: "the_index ?s = load_names (namelist z) []"
    by (simp add: the_index_def ReadZipFS_init_def)
  from o assms show ?thesis
    by (simp add: ReadZipFS_listdir_def check_def directory_open MemoryFS_listdir_def
        MemoryFS_exists_def i)
qed

text \<open>
  Claim C5: let a path be implied by a deeper file entry of the archive and be stored
  under no entry of its own. Then \<^verbatim>\<open>getinfo\<close> reports it as a directory, \<^verbatim>\<open>listdir\<close>
  lists its children, and both answer the same as on the archive that stores the
  directory entry explicitly (at any position of the table). In the archive whose only
  entry is \<open>x/y.txt\<close>, \<open>/x\<close> is a directory and its children are \<open>y.txt\<close>.
\<close>

theorem implied_directory_equivalence:
  assumes "z = z1 @ z2"
    and "(zi, content) \<in> set z" and "\<not> endswith_sep (filename zi)"
    and "parts (filename zi) = parts p @ rest" and "rest \<noteq> []"
    and "canonical p" and "p \<noteq> ''/''"
    and "\<forall>e\<in>set z. parts (filename (fst e)) \<noteq> parts p"
    and "filename (fst d) = forcedir (relpath p)"
  shows "fst (ReadZipFS_getinfo epoch (ReadZipFS_init f enc z) p []) =
           Inr \<lparr>basic = \<lparr>name = last (parts p), is_dir = True\<rparr>,
                details = None, zip_ns = None, access = None\<rparr> \<and>
         fst (ReadZipFS_getinfo epoch (ReadZipFS_init f enc (z1 @ d # z2)) p []) =
           fst (ReadZipFS_getinfo epoch (ReadZipFS_init f enc z) p []) \<and>
         fst (ReadZipFS_listdir (ReadZipFS_init f enc z) p) =
           Inr (children (load_names (namelist z) []) (parts p)) \<and>
         fst (ReadZipFS_listdir (ReadZipFS_init f enc (z1 @ d # z2)) p) =
           fst (ReadZipFS_listdir (ReadZipFS_init f enc z) p)"
proof -
  let ?dn = "forcedir (relpath p)"
  let ?ns = "namelist z"
  let ?ns' = "namelist (z1 @ d # z2)"
  from assms(6,7) have ne: "parts p \<noteq> []" by (rule canonical_parts)
  have pd: "parts ?dn = parts p" by (simp add: parts_forcedir parts_relpath)
  have ns: "?ns = namelist z1 @ namelist z2"
    by (simp add: assms(1) namelist_def)
  have ns': "?ns' = namelist z1 @ ?dn # namelist z2"
    by (simp add: namelist_def assms(9))
  have mem: "filename zi \<in> set ?ns"
    using assms(2) by (force simp: namelist_def)
  have nofile: "\<forall>m\<in>set ?ns. \<not> endswith_sep m \<longrightarrow> parts m \<noteq> parts p"
    using assms(8) by (auto simp: namelist_def)
  have flag: "map_of (load_names ?ns []) (parts p) = Some True"
    by (rule implied_dir_flag [OF mem assms(3,4,5) ne nofile])
  have mem': "filename zi \<in> set ?ns'"
    using mem by (auto simp: ns ns')
  have nofile': "\<forall>m\<in>set ?ns'. \<not> endswith_sep m \<longrightarrow> parts m \<noteq> parts p"
    using nofile endswith_sep_forcedir [of "relpath p"] by (auto simp: ns ns')
  have flag': "map_of (load_names ?ns' []) (parts p) = Some True"
    by (rule implied_dir_flag [OF mem' assms(3,4,5) ne nofile'])
  have ch: "children (load_names ?ns' []) (parts p) = children (load_names ?ns []) (parts p)"
    unfolding ns ns' by (rule children_explicit [OF endswith_sep_forcedir pd])
  show ?thesis
    by (simp add: getinfo_fresh_dir [OF assms(6,7) flag] getinfo_fresh_dir [OF assms(6,7) flag']
        listdir_fresh [OF flag] listdir_fresh [OF flag'] ch)
qed

theorem implied_directory_equivalence_witness:
  "implied_zip = [] @ implied_zip \<and>
   entry ''x/y.txt'' 0x81A40000 3 [104, 105] \<in> set implied_zip \<and>
   \<not> endswith_sep ''x/y.txt'' \<and>
   parts ''x/y.txt'' = parts ''/x'' @ [''y.txt''] \<and>
   canonical ''/x'' \<and>
   [] @ entry ''x/'' 0x41ED0000 3 [] # implied_zip = explicit_zip \<and>
   fst (ReadZipFS_getinfo epoch_1980 (ReadZipFS_init (FileName ''foo.zip'') ''utf-8'' implied_zip)
          ''/x'' [])
     = Inr \<lparr>basic = \<lparr>name = ''x'', is_dir = True\<rparr>, details = None, zip_ns = None,
            access = None\<rparr> \<and>
   fst (ReadZipFS_listdir (ReadZipFS_init (FileName ''foo.zip'') ''utf-8'' implied_zip) ''/x'')
     = Inr [''y.txt''] \<and>
   fst (ReadZipFS_listdir (ReadZipFS_init (FileName ''foo.zip'') ''utf-8'' explicit_zip) ''/x'')
     = Inr [''y.txt'']"
proof -
  let ?zi = "fst (entry ''x/y.txt'' 0x81A40000 3 [104, 105])"
  let ?d = "entry ''x/'' 0x41ED0000 3 []"
  have a1: "implied_zip = [] @ implied_zip" by simp
  have a2: "(?zi, [104, 105]) \<in> set implied_zip" by (simp add: implied_zip_def entry_def)
  have a3: "\<not> endswith_sep (filename ?zi)" by code_simp
  have a4: "parts (filename ?zi) = parts ''/x'' @ [''y.txt'']" by code_simp
  have a5: "[''y.txt''] \<noteq> []" by simp
  have a6: "canonical ''/x''" by code_simp
  have a7: "''/x'' \<noteq> ''/''" by simp
  have a8: "\<forall>e\<in>set implied_zip. parts (filename (fst e)) \<noteq> parts ''/x''" by code_simp
  have a9: "filename (fst ?d) = forcedir (relpath ''/x'')" by code_simp
  have x: "[] @ ?d # implied_zip = explicit_zip" by (simp add: explicit_zip_def implied_zip_def)
  have n: "last (parts ''/x'') = ''x''" by code_simp
  have c: "children (load_names (namelist implied_zip) []) (parts ''/x'') = [''y.txt'']"
    by code_simp
  have f: "filename ?zi = ''x/y.txt''" by (simp add: entry_def)
  have m: "entry ''x/y.txt'' 0x81A40000 3 [104, 105] \<in> set implied_zip"
    by (simp add: implied_zip_def)
  from implied_directory_equivalence
    [OF a1 a2 a3 a4 a5 a6 a7 a8 a9, of epoch_1980 "FileName ''foo.zip''" "''utf-8''"]
    a3 a4 a6 x n c f m
  show ?thesis by simp
qed

end
